theory Spec2Isabelle
  imports Main "HOL-Library.Multiset" "HOL-Library.Char_ord" "HOL-Library.List_Lexorder"
begin

section \<open>Strings\<close>

text \<open>
  JavaScript strings are modelled as \<open>string\<close> (lists of 8-bit characters), read as ASCII.
  \<open>toLowerCase\<close> maps the letters \<open>A\<close>..\<open>Z\<close> to \<open>a\<close>..\<open>z\<close> and leaves every other
  character alone; \<open>isSpace\<close> is the ASCII part of the regular expression class \<open>\s\<close>.
\<close>

definition toLowerChar :: "char \<Rightarrow> char" where
  "toLowerChar c =
     (case map_of (zip ''ABCDEFGHIJKLMNOPQRSTUVWXYZ'' ''abcdefghijklmnopqrstuvwxyz'') c of
        Some l \<Rightarrow> l
      | None \<Rightarrow> c)"

definition toLowerCase :: "string \<Rightarrow> string" where
  "toLowerCase s = map toLowerChar s"

definition isSpace :: "char \<Rightarrow> bool" where
  "isSpace c = (of_char c \<in> {9, 10, 11, 12, 13, 32::nat})"

text \<open>
  \<open>s.split(/\s+/).filter(part => part)\<close>: the maximal runs of non-space characters of
  \<open>s\<close>, left to right. \<open>cur\<close> is the run being read.
\<close>

fun splitParts :: "string \<Rightarrow> string \<Rightarrow> string list" where
  "splitParts cur [] = (if cur = [] then [] else [cur])"
| "splitParts cur (c # cs) =
     (if isSpace c
      then (if cur = [] then splitParts [] cs else cur # splitParts [] cs)
      else splitParts (cur @ [c]) cs)"

definition splitWords :: "string \<Rightarrow> string list" where
  "splitWords s = splitParts [] s"

fun startsWith :: "string \<Rightarrow> string \<Rightarrow> bool" where
  "startsWith hay [] = True"
| "startsWith [] (c # cs) = False"
| "startsWith (h # hs) (c # cs) = (h = c \<and> startsWith hs cs)"

fun isSubstring :: "string \<Rightarrow> string \<Rightarrow> bool" where
  "isSubstring [] part = (part = [])"
| "isSubstring (h # hs) part = (startsWith (h # hs) part \<or> isSubstring hs part)"

text \<open>
  Modelled from the spec: \<open>isMatch\<close> is imported from \<open>./RunStore\<close>, which is not among
  the sources. Section 4.1 of the specification: with no token the match is true,
  otherwise it is true iff every token is a substring of the haystack. The caller has
  already lower-cased the haystack and split the query.
\<close>

definition isMatch :: "string \<Rightarrow> string list \<Rightarrow> bool" where
  "isMatch haystack parts = list_all (isSubstring haystack) parts"

section \<open>Discussion threads (Viewer.Discussion.tsx)\<close>

text \<open>\<open>Comment\<close> of \<open>./PipelineContext\<close>, built as \<open>new Comment(who, when, text)\<close>;
  a \<open>Date\<close> is an integer time stamp.\<close>

record Comment =
  who :: string
  "when" :: int
  "text" :: string

definition statuses :: "string list" where
  "statuses = [''Open'', ''Closed'']"

definition dispositions :: "string list" where
  "dispositions =
     [''Should fix, P1'', ''Should fix, P2'', ''Should fix, P3'', ''Ignore for 90 days'',
      ''Not worth fixing'', ''False positive'', ''Discussion'']"

record DiscussionItem =
  "keywords" :: string
  status :: string
  disposition :: string
  comments :: "Comment list"

text \<open>The constructor \<open>new DiscussionItem(keywords, status, comments)\<close>; the disposition
  starts as \<open>dispositions[0]\<close>.\<close>

definition newDiscussionItem :: "string \<Rightarrow> string \<Rightarrow> Comment list \<Rightarrow> DiscussionItem" where
  "newDiscussionItem k s cs =
     \<lparr>keywords = k, status = s, disposition = dispositions ! 0, comments = cs\<rparr>"

text \<open>The module-level \<open>store.discussions\<close> at load time. The dates of the demo data
  are given in local time; they are written here as the number of days since 2010 Jan 1.\<close>

definition store_discussions :: "DiscussionItem list" where
  "store_discussions =
     [newDiscussionItem ''RULE01'' (statuses ! 0)
        [\<lparr>who = ''Michael'', when = 0, text =
           ''Lorem ipsum dolor sit amet, consectetur adipiscing elit, sed do eiusmod tempor incididunt ut labore et dolore magna aliqua.''\<rparr>,
         \<lparr>who = ''Jeff'', when = 1, text =
           ''Ut enim ad minim veniam, quis nostrud exercitation ullamco laboris nisi ut aliquip ex ea commodo consequat.''\<rparr>,
         \<lparr>who = ''Michael'', when = 2, text =
           ''Platea dictumst quisque sagittis purus sit amet volutpat. Urna id volutpat lacus laoreet non curabitur gravida arcu ac.''\<rparr>,
         \<lparr>who = ''Jeff'', when = 3, text =
           ''Sed vulputate mi sit amet mauris commodo quis imperdiet. Sed felis eget velit aliquet sagittis id consectetur purus ut. Tincidunt tortor aliquam nulla facilisi cras fermentum odio. Turpis egestas maecenas pharetra convallis posuere morbi leo urna molestie.''\<rparr>],
      newDiscussionItem ''RULE01 RULE02'' (statuses ! 1)
        [\<lparr>who = ''Larry'', when = 31, text =
           ''Duis aute irure dolor in reprehenderit in voluptate velit esse cillum dolore eu fugiat nulla pariatur.''\<rparr>],
      newDiscussionItem ''RULE01 RULE02 RULE03'' (statuses ! 0)
        [\<lparr>who = ''Alison'', when = 59, text =
           ''Excepteur sint occaecat cupidatat non proident, sunt in culpa qui officia deserunt mollit anim id est laborum.''\<rparr>]]"

text \<open>The part of \<open>IFilterState\<close> the component reads: \<open>filterState.Keywords?.value\<close> and
  \<open>filterState.Discussion?.value\<close>; \<open>None\<close> is an absent entry.\<close>

record FilterState =
  Keywords :: "string option"
  Discussion :: "string list option"

text \<open>The state of the \<open>Discussion\<close> component. The store is a module-level array that
  only ever grows by \<open>push\<close>, so a thread is identified by its position in it, and
  \<open>selectedDiscussion\<close> holds that position (\<open>None\<close> is \<open>null\<close>, the list view).\<close>

record DiscussionState =
  discussions :: "DiscussionItem list"
  selectedDiscussion :: "nat option"

definition initialDiscussionState :: DiscussionState where
  "initialDiscussionState = \<lparr>discussions = store_discussions, selectedDiscussion = None\<rparr>"

text \<open>The getter \<open>filteredDiscussions\<close>. \<open>thread.keywords || ''\<close> is \<open>thread.keywords\<close> for
  every string.\<close>

definition filteredDiscussions :: "FilterState \<Rightarrow> DiscussionItem list \<Rightarrow> DiscussionItem list" where
  "filteredDiscussions filterState ds =
     (let kws = (case Keywords filterState of
                   Some v \<Rightarrow> splitWords (toLowerCase v) | None \<Rightarrow> []);
          sts = (case Discussion filterState of Some v \<Rightarrow> v | None \<Rightarrow> [])
      in filter (\<lambda>thread.
           (sts = [] \<or> status thread \<in> set sts)
           \<and> isMatch (toLowerCase (keywords thread)) kws) ds)"

text \<open>The getter \<open>hasExactKeywordMatch\<close>; \<open>!keywords\<close> holds for an absent entry and for
  the empty string.\<close>

definition hasExactKeywordMatch :: "FilterState \<Rightarrow> DiscussionItem list \<Rightarrow> bool" where
  "hasExactKeywordMatch filterState ds =
     (case Keywords filterState of
        None \<Rightarrow> True
      | Some kw \<Rightarrow>
          if kw = [] then True
          else list_ex (\<lambda>discussion. toLowerCase (keywords discussion) = toLowerCase kw)
                 (filteredDiscussions filterState ds))"

text \<open>The \<open>onClick\<close> handler of the button "Start new discussion" (lines 108 to 112):
  it builds the thread, pushes it and selects it, with no check of its own.\<close>

definition startNewDiscussion :: "string \<Rightarrow> DiscussionState \<Rightarrow> DiscussionState" where
  "startNewDiscussion kw st =
     \<lparr>discussions = discussions st @ [newDiscussionItem kw (statuses ! 0) []],
      selectedDiscussion = Some (length (discussions st))\<rparr>"

text \<open>\<open>render\<close> shows the button in the list view (\<open>!discussion\<close>) when
  \<open>!this.hasExactKeywordMatch\<close>.\<close>

definition startOffered :: "FilterState \<Rightarrow> DiscussionState \<Rightarrow> bool" where
  "startOffered filterState st =
     (selectedDiscussion st = None \<and> \<not> hasExactKeywordMatch filterState (discussions st))"

text \<open>The command \<open>createDiscussion\<close> of the user interface: a click on the button when
  it is rendered; when it is not, nothing can be clicked and the state stays as it is.
  The signature of the new thread is the keyword text of the filter as typed.\<close>

definition createDiscussion :: "FilterState \<Rightarrow> DiscussionState \<Rightarrow> DiscussionState" where
  "createDiscussion filterState st =
     (case Keywords filterState of
        None \<Rightarrow> st
      | Some kw \<Rightarrow> if startOffered filterState st then startNewDiscussion kw st else st)"

text \<open>The state of a \<open>DiscussionDetails\<close> component: the thread it shows (the selected
  entry of the store) and its own fields.\<close>

record DetailsState =
  discussion :: DiscussionItem
  showAll :: bool
  newComment :: string
  newCommentError :: bool

text \<open>\<open>onChange\<close> of the text field.\<close>

definition onChange :: "string \<Rightarrow> DetailsState \<Rightarrow> DetailsState" where
  "onChange newValue st = st\<lparr>newComment := newValue, newCommentError := (newValue = [])\<rparr>"

text \<open>\<open>onKeyPress\<close> of the text field. \<open>user\<close> is the optional property \<open>user\<close> of the
  component, \<open>now\<close> the value of \<open>new Date()\<close>, \<open>key\<close> the key of the event.\<close>

definition onKeyPress :: "string option \<Rightarrow> int \<Rightarrow> string \<Rightarrow> DetailsState \<Rightarrow> DetailsState" where
  "onKeyPress user now key st =
     (if key \<noteq> ''Enter'' then st
      else st\<lparr>discussion := (discussion st)\<lparr>comments := comments (discussion st) @
                  [\<lparr>who = (case user of Some u \<Rightarrow> u | None \<Rightarrow> ''Anonymous''),
                    when = now, text = newComment st\<rparr>]\<rparr>,
              newComment := []\<rparr>)"

section \<open>The viewer (Viewer.tsx)\<close>

subsection \<open>Sorting\<close>

text \<open>
  \<open>Array.prototype.sort(cmp)\<close> is a stable sort: \<open>a\<close> comes before \<open>b\<close> when
  \<open>cmp(a, b) < 0\<close>, after it when \<open>cmp(a, b) > 0\<close>, and elements that compare equal keep
  their order. It is modelled as the insertion of each element, from the last to the
  first, into the sorted rest, an element going in front of the first one it does not
  compare greater than.
\<close>

fun insertBy :: "('a \<Rightarrow> 'a \<Rightarrow> int) \<Rightarrow> 'a \<Rightarrow> 'a list \<Rightarrow> 'a list" where
  "insertBy cmp x [] = [x]"
| "insertBy cmp x (y # ys) = (if cmp x y \<le> 0 then x # y # ys else y # insertBy cmp x ys)"

definition sort_js :: "('a \<Rightarrow> 'a \<Rightarrow> int) \<Rightarrow> 'a list \<Rightarrow> 'a list" where
  "sort_js cmp xs = foldr (insertBy cmp) xs []"

text \<open>
  Modelled from the spec: \<open>Array.prototype.sorted\<close> comes from \<open>./extension\<close>, which is
  not among the sources. Section 4.3 of the specification: it returns the elements sorted
  by the comparator, and the sort is stable.
\<close>

definition sorted_ext :: "('a \<Rightarrow> 'a \<Rightarrow> int) \<Rightarrow> 'a list \<Rightarrow> 'a list" where
  "sorted_ext cmp xs = sort_js cmp xs"

text \<open>
  \<open>String.prototype.localeCompare\<close> depends on the collation of the host, so the
  definitions below take it as the parameter \<open>localeCompare\<close>. For closed examples there
  is the comparison of strings by character code; on strings of upper-case ASCII letters
  every collation agrees with it.
\<close>

definition codeUnitCompare :: "string \<Rightarrow> string \<Rightarrow> int" where
  "codeUnitCompare a b = (if a < b then - 1 else if a = b then 0 else 1)"

subsection \<open>Run stores\<close>

text \<open>The part of a SARIF log that the viewer reads here: the version tag of a log and
  its runs; of a run, the name of its driver and its results (by rule id).\<close>

record Run =
  driverName :: string
  results :: "string list"

record Log =
  version :: string
  runs :: "Run list"

text \<open>
  Modelled from the spec: the class \<open>RunStore\<close> of \<open>./RunStore\<close> is not among the sources.
  An aggregate keeps its run and its index; \<open>hideBaseline\<close> and \<open>showAge\<close> are the two
  plain values its constructor receives (\<open>filter\<close>, \<open>groupByAge\<close> and \<open>pipelineContext\<close>
  are references to shared objects and are left out). Its \<open>driverName\<close> is the driver
  name of its run; its \<open>filteredCount\<close> is read against the live filter and is a
  parameter wherever it is used.
\<close>

record RunStore =
  run :: Run
  logIndex :: nat
  hideBaseline :: "bool option"
  showAge :: "bool option"

text \<open>The body of \<open>runStores\<close> (lines 92 to 100) for the argument \<open>logs\<close>; \<open>None\<close> is
  \<open>undefined\<close>. \<open>hb\<close> and \<open>sa\<close> are the properties \<open>hideBaseline\<close> and \<open>showAge\<close>.\<close>

definition runStores ::
  "(string \<Rightarrow> string \<Rightarrow> int) \<Rightarrow> bool option \<Rightarrow> bool option \<Rightarrow> Log list option \<Rightarrow> RunStore list" where
  "runStores localeCompare hb sa logs =
     (case logs of
        None \<Rightarrow> []
      | Some ls \<Rightarrow>
          sort_js (\<lambda>a b. localeCompare (driverName (run a)) (driverName (run b)))
            (map (\<lambda>(i, r). \<lparr>run = r, logIndex = i, hideBaseline = hb, showAge = sa\<rparr>)
               (enumerate 0 (concat (map runs (filter (\<lambda>log. version log = ''2.1.0'') ls))))))"

text \<open>The getter \<open>runStoresSorted\<close> (lines 102 to 105); \<open>slice()\<close> copies the array.\<close>

definition runStoresSorted ::
  "(RunStore \<Rightarrow> int) \<Rightarrow> (string \<Rightarrow> string \<Rightarrow> int) \<Rightarrow> bool option \<Rightarrow> bool option
     \<Rightarrow> Log list option \<Rightarrow> RunStore list" where
  "runStoresSorted filteredCount localeCompare hb sa logs =
     sorted_ext (\<lambda>a b. filteredCount b - filteredCount a) (runStores localeCompare hb sa logs)"

subsection \<open>The review notice\<close>

text \<open>
  Modelled from the spec: the class \<open>PipelineContext\<close> of \<open>./PipelineContext\<close> is not
  among the sources. Section 6 of the specification: it exposes \<open>reviewRevision\<close>, an
  integer, and \<open>showReviewUpdated\<close>, a boolean. The revision is a mathematical integer
  here; the JavaScript number that holds it counts exactly up to \<open>2^53\<close>.
\<close>

record PipelineContext =
  reviewRevision :: int
  showReviewUpdated :: bool

text \<open>The fields of the \<open>Viewer\<close> that the notice depends on: the state held by its
  \<open>filter\<close> and its optional \<open>pipelineContext\<close>.\<close>

record Viewer =
  filter_state :: FilterState
  pipelineContext :: "PipelineContext option"

text \<open>The body of the \<open>autorun\<close> of the constructor (lines 74 to 77).\<close>

definition filterAutorun :: "Viewer \<Rightarrow> Viewer" where
  "filterAutorun v =
     (case pipelineContext v of
        None \<Rightarrow> v
      | Some pc \<Rightarrow> v\<lparr>pipelineContext := Some (pc\<lparr>showReviewUpdated := False\<rparr>)\<rparr>)"

text \<open>A mutation of the filter: the \<open>autorun\<close> has read \<open>this.filter.getState()\<close>, so it
  runs again once the state has changed.\<close>

definition filterChanged :: "FilterState \<Rightarrow> Viewer \<Rightarrow> Viewer" where
  "filterChanged fs v = filterAutorun (v\<lparr>filter_state := fs\<rparr>)"

text \<open>\<open>render\<close> shows the toast when \<open>pipelineContext?.showReviewUpdated\<close>.\<close>

definition toastShown :: "Viewer \<Rightarrow> bool" where
  "toastShown v = (case pipelineContext v of None \<Rightarrow> False | Some pc \<Rightarrow> showReviewUpdated pc)"

text \<open>\<open>onCallToActionClick\<close> of the toast (lines 158 to 161).\<close>

definition onCallToActionClick :: "Viewer \<Rightarrow> Viewer" where
  "onCallToActionClick v =
     (case pipelineContext v of
        None \<Rightarrow> v
      | Some pc \<Rightarrow>
          v\<lparr>pipelineContext :=
               Some (pc\<lparr>showReviewUpdated := False, reviewRevision := reviewRevision pc + 1\<rparr>)\<rparr>)"

text \<open>The command \<open>reapplyFilter\<close>: a click on the call to action of the toast, which
  exists only while the toast is shown.\<close>

definition reapplyFilter :: "Viewer \<Rightarrow> Viewer" where
  "reapplyFilter v = (if toastShown v then onCallToActionClick v else v)"

text \<open>
  Modelled from the spec: the review collaborator is not among the sources. Section 4.5
  of the specification: it may report at any time that background results changed, which
  sets the flag; without a pipeline context nothing is reported.
\<close>

definition reviewUpdated :: "Viewer \<Rightarrow> Viewer" where
  "reviewUpdated v =
     (case pipelineContext v of
        None \<Rightarrow> v
      | Some pc \<Rightarrow> v\<lparr>pipelineContext := Some (pc\<lparr>showReviewUpdated := True\<rparr>)\<rparr>)"

text \<open>The operations on the notice, and their runs.\<close>

datatype event = FilterChanged FilterState | ReviewUpdated | ReapplyFilter

fun step :: "Viewer \<Rightarrow> event \<Rightarrow> Viewer" where
  "step v (FilterChanged fs) = filterChanged fs v"
| "step v ReviewUpdated = reviewUpdated v"
| "step v ReapplyFilter = reapplyFilter v"

definition steps :: "Viewer \<Rightarrow> event list \<Rightarrow> Viewer" where
  "steps v es = foldl step v es"

text \<open>The applied revision of a viewer is the \<open>reviewRevision\<close> of its pipeline context,
  when it has one.\<close>

definition appliedRevision :: "Viewer \<Rightarrow> int option" where
  "appliedRevision v = map_option reviewRevision (pipelineContext v)"

section \<open>Facts about the string functions\<close>

lemma startsWith_iff: "startsWith hay part \<longleftrightarrow> (\<exists>b. hay = part @ b)"
  by (induction hay part rule: startsWith.induct) auto

lemma isSubstring_iff: "isSubstring hay part \<longleftrightarrow> (\<exists>a b. hay = a @ part @ b)"
proof (induction hay)
  case Nil
  then show ?case by auto
next
  case (Cons h hs)
  show ?case
  proof
    assume "isSubstring (h # hs) part"
    then consider "startsWith (h # hs) part" | "isSubstring hs part" by auto
    then show "\<exists>a b. h # hs = a @ part @ b"
    proof cases
      case 1
      then obtain b where "h # hs = part @ b" using startsWith_iff by blast
      then have "h # hs = [] @ part @ b" by simp
      then show ?thesis by blast
    next
      case 2
      then obtain a b where "hs = a @ part @ b" using Cons.IH by blast
      then have "h # hs = (h # a) @ part @ b" by simp
      then show ?thesis by blast
    qed
  next
    assume "\<exists>a b. h # hs = a @ part @ b"
    then obtain a b where ab: "h # hs = a @ part @ b" by blast
    show "isSubstring (h # hs) part"
    proof (cases a)
      case Nil
      with ab have "startsWith (h # hs) part" using startsWith_iff by auto
      then show ?thesis by simp
    next
      case (Cons a0 as)
      with ab have "hs = as @ part @ b" by simp
      then have "isSubstring hs part" using Cons.IH by blast
      then show ?thesis by simp
    qed
  qed
qed

lemma splitParts_substring:
  "p \<in> set (splitParts cur s) \<Longrightarrow> \<exists>a b. cur @ s = a @ p @ b"
proof (induction s arbitrary: cur)
  case Nil
  then have "p = cur" by (auto split: if_splits)
  then have "cur @ [] = [] @ p @ []" by simp
  then show ?case by blast
next
  case (Cons c cs)
  show ?case
  proof (cases "isSpace c")
    case False
    with Cons.prems have "p \<in> set (splitParts (cur @ [c]) cs)" by simp
    from Cons.IH [OF this] show ?thesis by simp
  next
    case True
    with Cons.prems consider "p = cur" | "p \<in> set (splitParts [] cs)"
      by (auto split: if_splits)
    then show ?thesis
    proof cases
      case 1
      then have "cur @ c # cs = [] @ p @ (c # cs)" by simp
      then show ?thesis by blast
    next
      case 2
      from Cons.IH [OF this] obtain a b where "cs = a @ p @ b" by auto
      then have "cur @ c # cs = (cur @ c # a) @ p @ b" by simp
      then show ?thesis by blast
    qed
  qed
qed

lemma isMatch_own_words: "isMatch s (splitWords s)"
  using splitParts_substring [of _ "[]" s]
  by (auto simp: isMatch_def splitWords_def list_all_iff isSubstring_iff)

section \<open>Facts about sorting\<close>

lemma length_insertBy: "length (insertBy cmp x ys) = Suc (length ys)"
  by (induction ys) simp_all

lemma mset_insertBy: "mset (insertBy cmp x ys) = add_mset x (mset ys)"
  by (induction ys) simp_all

lemma mset_sort_js: "mset (sort_js cmp xs) = mset xs"
  by (induction xs) (simp_all add: sort_js_def mset_insertBy)

lemma set_sort_js: "set (sort_js cmp xs) = set xs"
  by (metis mset_sort_js set_mset_mset)

lemma length_sort_js: "length (sort_js cmp xs) = length xs"
  by (metis mset_sort_js size_mset)

lemma insertBy_count: "insertBy (\<lambda>a b. fc b - fc a) x ys = insort_key (\<lambda>a. - fc a) x ys"
  for fc :: "'a \<Rightarrow> int"
  by (induction ys) simp_all

lemma sort_js_count: "sort_js (\<lambda>a b. fc b - fc a) xs = sort_key (\<lambda>a. - fc a) xs"
  for fc :: "'a \<Rightarrow> int"
  by (induction xs) (simp_all add: sort_js_def sort_key_def insertBy_count)

lemma sorted_wrt_insertBy:
  assumes total: "\<And>a b. cmp a b \<le> 0 \<or> cmp b a \<le> 0"
    and trans: "\<And>a b c. cmp a b \<le> 0 \<Longrightarrow> cmp b c \<le> 0 \<Longrightarrow> cmp a c \<le> 0"
    and first: "\<forall>y \<in> set ys. idx x < idx y"
    and srt: "sorted_wrt (\<lambda>a b. cmp a b \<le> 0 \<and> (cmp b a \<le> 0 \<longrightarrow> idx a < idx b)) ys"
  shows "sorted_wrt (\<lambda>a b. cmp a b \<le> 0 \<and> (cmp b a \<le> 0 \<longrightarrow> idx a < (idx b :: nat)))
           (insertBy cmp x ys)"
  using first srt
proof (induction ys)
  case Nil
  then show ?case by simp
next
  case (Cons y ys)
  show ?case
  proof (cases "cmp x y \<le> 0")
    case True
    have "cmp x z \<le> 0" if "z \<in> set ys" for z
      using Cons.prems(2) True that trans by auto
    with True Cons.prems show ?thesis by auto
  next
    case False
    then have yx: "cmp y x \<le> 0" using total by blast
    have ih: "sorted_wrt (\<lambda>a b. cmp a b \<le> 0 \<and> (cmp b a \<le> 0 \<longrightarrow> idx a < idx b)) (insertBy cmp x ys)"
      using Cons by simp
    have "set (insertBy cmp x ys) = insert x (set ys)"
      by (metis mset_insertBy set_mset_add_mset_insert set_mset_mset)
    with False yx ih Cons.prems(2) show ?thesis by auto
  qed
qed

lemma sorted_wrt_sort_js:
  assumes total: "\<And>a b. cmp a b \<le> 0 \<or> cmp b a \<le> 0"
    and trans: "\<And>a b c. cmp a b \<le> 0 \<Longrightarrow> cmp b c \<le> 0 \<Longrightarrow> cmp a c \<le> 0"
    and inc: "sorted_wrt (\<lambda>a b. idx a < (idx b :: nat)) xs"
  shows "sorted_wrt (\<lambda>a b. cmp a b \<le> 0 \<and> (cmp b a \<le> 0 \<longrightarrow> idx a < idx b)) (sort_js cmp xs)"
  using inc
proof (induction xs)
  case Nil
  then show ?case by (simp add: sort_js_def)
next
  case (Cons x xs)
  have "sort_js cmp (x # xs) = insertBy cmp x (sort_js cmp xs)"
    by (simp add: sort_js_def)
  moreover have "\<forall>y \<in> set (sort_js cmp xs). idx x < idx y"
    using Cons.prems by (simp add: set_sort_js)
  moreover have "sorted_wrt (\<lambda>a b. cmp a b \<le> 0 \<and> (cmp b a \<le> 0 \<longrightarrow> idx a < idx b)) (sort_js cmp xs)"
    using Cons by simp
  ultimately show ?case
    using sorted_wrt_insertBy [of cmp "sort_js cmp xs" idx x] total trans by simp
qed

lemma codeUnitCompare_total: "codeUnitCompare a b \<le> 0 \<or> codeUnitCompare b a \<le> 0"
  by (auto simp: codeUnitCompare_def)

lemma codeUnitCompare_trans:
  "codeUnitCompare a b \<le> 0 \<Longrightarrow> codeUnitCompare b c \<le> 0 \<Longrightarrow> codeUnitCompare a c \<le> 0"
  by (auto simp: codeUnitCompare_def split: if_splits)

lemma logIndex_increasing:
  "sorted_wrt (\<lambda>a b. logIndex a < logIndex b)
     (map (\<lambda>(i, r). \<lparr>run = r, logIndex = i, hideBaseline = hb, showAge = sa\<rparr>) (enumerate n rs))"
proof -
  have "sorted_wrt (<) (map fst (enumerate n rs))"
    by simp
  then have "sorted_wrt (\<lambda>p q. fst p < fst q) (enumerate n rs)"
    by (simp only: sorted_wrt_map)
  then show ?thesis
    by (simp add: sorted_wrt_map case_prod_unfold)
qed

lemma index_run_of_stores:
  "map (\<lambda>s. (logIndex s, run s))
     (map (\<lambda>(i, r). \<lparr>run = r, logIndex = i, hideBaseline = hb, showAge = sa\<rparr>) ps) = ps"
  by (induction ps) auto

section \<open>Evaluation of closed examples\<close>

lemmas eval_defs = hasExactKeywordMatch_def filteredDiscussions_def store_discussions_def
  newDiscussionItem_def statuses_def dispositions_def toLowerCase_def toLowerChar_def splitWords_def
  isSpace_def isMatch_def createDiscussion_def startOffered_def startNewDiscussion_def
  initialDiscussionState_def

lemmas viewer_eval = runStores_def runStoresSorted_def sorted_ext_def sort_js_def codeUnitCompare_def
  enumerate_eq_zip

lemmas notice_eval = toastShown_def reapplyFilter_def onCallToActionClick_def appliedRevision_def
  reviewUpdated_def filterChanged_def filterAutorun_def steps_def

section \<open>Creating a discussion thread\<close>

text \<open>
  Where the guard works: when a visible thread has the signature of the keyword query,
  up to the case of letters, the button is not offered, and the store and the selection
  stay as they are.
\<close>

lemma createDiscussion_visible_duplicate:
  assumes "Keywords filterState = Some kw"
    and "t \<in> set (filteredDiscussions filterState (discussions st))"
    and "toLowerCase (keywords t) = toLowerCase kw"
  shows "\<not> startOffered filterState st \<and> createDiscussion filterState st = st"
  using assms
  by (auto simp: createDiscussion_def startOffered_def hasExactKeywordMatch_def list_ex_iff)

text \<open>
  Claim C1: creating a thread whose exact signature already exists fails with a conflict
  error and leaves the store unchanged. The code breaks it. The handler has no check of
  its own and relies on the guard of the button, which looks at the visible threads only.
  On the initial store, which holds the open thread \<open>RULE01\<close>, with the keyword query
  \<open>RULE01\<close> and the status filter \<open>Closed\<close>, that thread is hidden, the button is
  offered, and the click does not fail: it appends a second thread \<open>RULE01\<close> to the
  store and moves the selection to it.
\<close>

theorem createDiscussion_existing_signature:
  "''RULE01'' \<in> set (map keywords (discussions initialDiscussionState))
   \<and> selectedDiscussion initialDiscussionState = None
   \<and> startOffered \<lparr>Keywords = Some ''RULE01'', Discussion = Some [''Closed'']\<rparr>
         initialDiscussionState
   \<and> discussions (createDiscussion \<lparr>Keywords = Some ''RULE01'', Discussion = Some [''Closed'']\<rparr>
         initialDiscussionState)
       = discussions initialDiscussionState @ [newDiscussionItem ''RULE01'' ''Open'' []]
   \<and> selectedDiscussion (createDiscussion
         \<lparr>Keywords = Some ''RULE01'', Discussion = Some [''Closed'']\<rparr> initialDiscussionState)
       = Some 3
   \<and> createDiscussion \<lparr>Keywords = Some ''RULE01'', Discussion = Some [''Closed'']\<rparr>
         initialDiscussionState
       \<noteq> initialDiscussionState"
  by (simp add: eval_defs)

section \<open>Posting a comment\<close>

text \<open>
  Claim C2, as amended. Nothing is trimmed and no validation error exists. Pressing Enter
  with a non-empty pending text, which may consist of white space only, appends exactly
  one comment at the tail of the thread, with the current timestamp and the pending text,
  and clears the pending text; the rest of the thread and of the component is unchanged.
\<close>

theorem onKeyPress_appends_comment:
  assumes "newComment st \<noteq> []"
  shows "comments (discussion (onKeyPress user now ''Enter'' st))
           = comments (discussion st) @
               [\<lparr>who = (case user of Some u \<Rightarrow> u | None \<Rightarrow> ''Anonymous''),
                 when = now, text = newComment st\<rparr>]
         \<and> newComment (onKeyPress user now ''Enter'' st) = []
         \<and> keywords (discussion (onKeyPress user now ''Enter'' st)) = keywords (discussion st)
         \<and> status (discussion (onKeyPress user now ''Enter'' st)) = status (discussion st)
         \<and> disposition (discussion (onKeyPress user now ''Enter'' st)) = disposition (discussion st)
         \<and> showAll (onKeyPress user now ''Enter'' st) = showAll st
         \<and> newCommentError (onKeyPress user now ''Enter'' st) = newCommentError st"
  by (simp add: onKeyPress_def)

text \<open>The theorem after typing \<open>Agreed.\<close> into the box of a thread with one comment.\<close>

theorem onKeyPress_appends_comment_witness:
  "comments (discussion (onKeyPress (Some ''Jeff'') 100 ''Enter''
      (onChange ''Agreed.''
        \<lparr>discussion = newDiscussionItem ''RULE01'' ''Open''
            [\<lparr>who = ''Michael'', when = 0, text = ''Lorem ipsum''\<rparr>],
         showAll = False, newComment = [], newCommentError = False\<rparr>)))
     = [\<lparr>who = ''Michael'', when = 0, text = ''Lorem ipsum''\<rparr>,
        \<lparr>who = ''Jeff'', when = 100, text = ''Agreed.''\<rparr>]"
proof -
  let ?st = "onChange ''Agreed.''
        \<lparr>discussion = newDiscussionItem ''RULE01'' ''Open''
            [\<lparr>who = ''Michael'', when = 0, text = ''Lorem ipsum''\<rparr>],
         showAll = False, newComment = [], newCommentError = False\<rparr>"
  have h: "newComment ?st \<noteq> []"
    by (simp add: onChange_def)
  from onKeyPress_appends_comment [OF h, of "Some ''Jeff''" 100] show ?thesis
    by (simp add: onChange_def newDiscussionItem_def)
qed

text \<open>The claim as stated fails for a pending text of one space, which is empty after
  trimming: the comment is appended to the (here empty) thread.\<close>

theorem onKeyPress_whitespace_counterexample:
  "list_all isSpace '' ''
   \<and> comments (discussion (onKeyPress (Some ''Jeff'') 100 ''Enter''
         \<lparr>discussion = newDiscussionItem ''RULE01'' ''Open'' [], showAll = False,
          newComment = '' '', newCommentError = False\<rparr>))
       = [\<lparr>who = ''Jeff'', when = 100, text = '' ''\<rparr>]
   \<and> comments (discussion
         \<lparr>discussion = newDiscussionItem ''RULE01'' ''Open'' [], showAll = False,
          newComment = '' '', newCommentError = False\<rparr>) = []"
  by (simp add: onKeyPress_def newDiscussionItem_def isSpace_def)

section \<open>Uniqueness of signatures\<close>

text \<open>
  Without a status filter the guard of the button sees every thread, and creating a
  thread keeps the signatures unique, even up to the case of letters.
\<close>

lemma createDiscussion_unfiltered_unique:
  assumes nofilter: "Discussion filterState = None \<or> Discussion filterState = Some []"
    and uniq: "distinct (map (\<lambda>t. toLowerCase (keywords t)) (discussions st))"
  shows "distinct (map (\<lambda>t. toLowerCase (keywords t)) (discussions (createDiscussion filterState st)))"
proof (cases "Keywords filterState")
  case None
  with uniq show ?thesis by (simp add: createDiscussion_def)
next
  case (Some kw)
  show ?thesis
  proof (cases "startOffered filterState st")
    case False
    with Some uniq show ?thesis by (simp add: createDiscussion_def)
  next
    case True
    have vis: "filteredDiscussions filterState (discussions st)
                 = filter (\<lambda>t. isMatch (toLowerCase (keywords t)) (splitWords (toLowerCase kw)))
                     (discussions st)"
      using nofilter Some by (auto simp: filteredDiscussions_def)
    have "toLowerCase kw \<notin> (\<lambda>t. toLowerCase (keywords t)) ` set (discussions st)"
    proof
      assume "toLowerCase kw \<in> (\<lambda>t. toLowerCase (keywords t)) ` set (discussions st)"
      then obtain t where t: "t \<in> set (discussions st)" "toLowerCase (keywords t) = toLowerCase kw"
        by auto
      then have "t \<in> set (filteredDiscussions filterState (discussions st))"
        using isMatch_own_words [of "toLowerCase kw"] by (simp add: vis)
      with t Some have "hasExactKeywordMatch filterState (discussions st)"
        by (auto simp: hasExactKeywordMatch_def list_ex_iff)
      with True show False by (simp add: startOffered_def)
    qed
    with True Some uniq show ?thesis
      by (simp add: createDiscussion_def startNewDiscussion_def newDiscussionItem_def)
  qed
qed

text \<open>
  Claim C3: no two threads of the store have the same signature. The code breaks it:
  the guard looks at the visible threads only. On the initial store, whose signatures
  are distinct, with the keyword query \<open>RULE01\<close> and the status filter \<open>Closed\<close>, the
  open thread \<open>RULE01\<close> is hidden, the button is offered, and the click adds a second
  thread \<open>RULE01\<close>.
\<close>

theorem signature_not_unique_after_create:
  "distinct (map keywords (discussions initialDiscussionState))
   \<and> selectedDiscussion initialDiscussionState = None
   \<and> \<not> distinct (map keywords (discussions
         (createDiscussion \<lparr>Keywords = Some ''RULE01'', Discussion = Some [''Closed'']\<rparr>
            initialDiscussionState)))"
  by (simp add: eval_defs)

section \<open>Run stores\<close>

text \<open>
  Claim C4, as amended. For every log collection there is exactly one run store per run
  of the logs of version 2.1.0, carrying that run and its position in encounter order as
  \<open>logIndex\<close>. The sequence is not in encounter order: it is sorted by driver name under
  \<open>localeCompare\<close> (a total and transitive comparison), and run stores whose driver
  names compare equal are in encounter order.
\<close>

theorem runStores_by_driverName:
  assumes total: "\<forall>a b. localeCompare a b \<le> 0 \<or> localeCompare b a \<le> 0"
    and trans: "\<forall>a b c. localeCompare a b \<le> 0 \<longrightarrow> localeCompare b c \<le> 0 \<longrightarrow> localeCompare a c \<le> 0"
  shows "mset (map (\<lambda>s. (logIndex s, run s)) (runStores localeCompare hb sa (Some logs)))
           = mset (enumerate 0 (concat (map runs (filter (\<lambda>log. version log = ''2.1.0'') logs))))
         \<and> sorted_wrt (\<lambda>a b. localeCompare (driverName (run a)) (driverName (run b)) \<le> 0
               \<and> (localeCompare (driverName (run b)) (driverName (run a)) \<le> 0
                    \<longrightarrow> logIndex a < logIndex b))
             (runStores localeCompare hb sa (Some logs))"
proof
  let ?rs = "concat (map runs (filter (\<lambda>log. version log = ''2.1.0'') logs))"
  let ?mk = "\<lambda>(i, r). \<lparr>run = r, logIndex = i, hideBaseline = hb, showAge = sa\<rparr>"
  let ?cmp = "\<lambda>a b. localeCompare (driverName (run a)) (driverName (run b))"
  have rs: "runStores localeCompare hb sa (Some logs) = sort_js ?cmp (map ?mk (enumerate 0 ?rs))"
    by (simp add: runStores_def)
  have "mset (map (\<lambda>s. (logIndex s, run s)) (sort_js ?cmp (map ?mk (enumerate 0 ?rs))))
          = mset (map (\<lambda>s. (logIndex s, run s)) (map ?mk (enumerate 0 ?rs)))"
    by (simp only: mset_map mset_sort_js)
  also have "\<dots> = mset (enumerate 0 ?rs)"
    by (simp only: index_run_of_stores)
  finally show "mset (map (\<lambda>s. (logIndex s, run s)) (runStores localeCompare hb sa (Some logs)))
      = mset (enumerate 0 ?rs)"
    by (simp only: rs)
  have t: "\<And>a b. ?cmp a b \<le> 0 \<or> ?cmp b a \<le> 0"
    using total by blast
  have tr: "\<And>a b c. ?cmp a b \<le> 0 \<Longrightarrow> ?cmp b c \<le> 0 \<Longrightarrow> ?cmp a c \<le> 0"
    using trans by blast
  show "sorted_wrt (\<lambda>a b. ?cmp a b \<le> 0 \<and> (?cmp b a \<le> 0 \<longrightarrow> logIndex a < logIndex b))
          (runStores localeCompare hb sa (Some logs))"
    unfolding rs
    by (rule sorted_wrt_sort_js [where cmp = ?cmp and idx = logIndex, OF t tr logIndex_increasing])
qed

text \<open>The theorem for three logs, the first of an older version: the run stores of the
  drivers \<open>B\<close>, \<open>B\<close> and \<open>C\<close>, the two \<open>B\<close> in encounter order.\<close>

theorem runStores_by_driverName_witness:
  "map logIndex (runStores codeUnitCompare None None
     (Some [\<lparr>version = ''2.0.0'', runs = [\<lparr>driverName = ''A'', results = []\<rparr>]\<rparr>,
            \<lparr>version = ''2.1.0'', runs = [\<lparr>driverName = ''C'', results = []\<rparr>,
                                         \<lparr>driverName = ''B'', results = [''R1'']\<rparr>]\<rparr>,
            \<lparr>version = ''2.1.0'', runs = [\<lparr>driverName = ''B'', results = []\<rparr>]\<rparr>])) = [1, 2, 0]"
proof -
  have total: "\<forall>a b. codeUnitCompare a b \<le> 0 \<or> codeUnitCompare b a \<le> 0"
    using codeUnitCompare_total by blast
  have trans: "\<forall>a b c. codeUnitCompare a b \<le> 0 \<longrightarrow> codeUnitCompare b c \<le> 0
      \<longrightarrow> codeUnitCompare a c \<le> 0"
    using codeUnitCompare_trans by blast
  from runStores_by_driverName [OF total trans] show ?thesis
    by (simp add: viewer_eval)
qed

text \<open>The claim as stated fails for one log whose runs have the drivers \<open>B\<close> and \<open>A\<close>,
  in this order: the run of \<open>A\<close>, met second, comes first.\<close>

theorem runStores_order_counterexample:
  "map run (runStores codeUnitCompare None None
     (Some [\<lparr>version = ''2.1.0'', runs = [\<lparr>driverName = ''B'', results = []\<rparr>,
                                         \<lparr>driverName = ''A'', results = []\<rparr>]\<rparr>]))
     \<noteq> [\<lparr>driverName = ''B'', results = []\<rparr>, \<lparr>driverName = ''A'', results = []\<rparr>]
   \<and> map logIndex (runStores codeUnitCompare None None
     (Some [\<lparr>version = ''2.1.0'', runs = [\<lparr>driverName = ''B'', results = []\<rparr>,
                                         \<lparr>driverName = ''A'', results = []\<rparr>]\<rparr>])) = [1, 0]"
  by (simp add: viewer_eval)

text \<open>
  Claim C5. For every sequence of aggregates, sorting it with the comparator of
  \<open>runStoresSorted\<close> gives the same aggregates by descending \<open>filteredCount\<close>, and
  the aggregates of each count are in the order they had in the input.
\<close>

theorem sorted_by_filteredCount:
  fixes filteredCount :: "RunStore \<Rightarrow> int"
  shows "sorted_wrt (\<lambda>a b. filteredCount b \<le> filteredCount a)
           (sorted_ext (\<lambda>a b. filteredCount b - filteredCount a) xs)
         \<and> mset (sorted_ext (\<lambda>a b. filteredCount b - filteredCount a) xs) = mset xs
         \<and> (\<forall>k. filter (\<lambda>a. filteredCount a = k)
                  (sorted_ext (\<lambda>a b. filteredCount b - filteredCount a) xs)
                = filter (\<lambda>a. filteredCount a = k) xs)"
proof -
  let ?key = "\<lambda>a. - filteredCount a"
  have eq: "sorted_ext (\<lambda>a b. filteredCount b - filteredCount a) xs = sort_key ?key xs"
    by (simp add: sorted_ext_def sort_js_count)
  have "sorted (map ?key (sort_key ?key xs))"
    by (rule sorted_sort_key)
  then have "sorted_wrt (\<lambda>a b. ?key a \<le> ?key b) (sort_key ?key xs)"
    by (simp only: sorted_map)
  then have a: "sorted_wrt (\<lambda>a b. filteredCount b \<le> filteredCount a) (sort_key ?key xs)"
    by simp
  have b: "mset (sort_key ?key xs) = mset xs"
    by simp
  have c: "filter (\<lambda>a. filteredCount a = k) (sort_key ?key xs) = filter (\<lambda>a. filteredCount a = k) xs"
    for k
    using sort_key_stable [of ?key "- k" xs] by simp
  from a b c show ?thesis
    unfolding eq by blast
qed

text \<open>Four runs, of the drivers \<open>A\<close> to \<open>D\<close>, with the counts 3, 1, 3, 0: the getter
  \<open>runStoresSorted\<close> yields the counts 3, 3, 1, 0, the run of index 0 before that of
  index 2.\<close>

theorem sorted_by_filteredCount_witness:
  "map logIndex (runStoresSorted (\<lambda>s. [3, 1, 3, 0] ! logIndex s) codeUnitCompare None None
     (Some [\<lparr>version = ''2.1.0'', runs = [\<lparr>driverName = ''A'', results = []\<rparr>,
                                         \<lparr>driverName = ''B'', results = []\<rparr>,
                                         \<lparr>driverName = ''C'', results = []\<rparr>,
                                         \<lparr>driverName = ''D'', results = []\<rparr>]\<rparr>]))
     = [0, 2, 1, 3]"
  using sorted_by_filteredCount [of "\<lambda>s. [3, 1, 3, 0] ! logIndex s"
    "runStores codeUnitCompare None None
     (Some [\<lparr>version = ''2.1.0'', runs = [\<lparr>driverName = ''A'', results = []\<rparr>,
                                         \<lparr>driverName = ''B'', results = []\<rparr>,
                                         \<lparr>driverName = ''C'', results = []\<rparr>,
                                         \<lparr>driverName = ''D'', results = []\<rparr>]\<rparr>])"]
  by (simp add: viewer_eval)

section \<open>The review notice\<close>

lemma appliedRevision_step: "rel_option (\<le>) (appliedRevision v) (appliedRevision (step v e))"
  by (cases e)
     (auto simp: appliedRevision_def filterChanged_def filterAutorun_def reviewUpdated_def
        reapplyFilter_def onCallToActionClick_def option.rel_map
        split: option.splits intro: option.rel_refl)

lemma rel_option_le_trans:
  "rel_option (\<le>) a b \<Longrightarrow> rel_option (\<le>) b c \<Longrightarrow> rel_option (\<le>) a (c :: int option)"
  by (cases a; cases b; cases c) auto

lemma appliedRevision_steps: "rel_option (\<le>) (appliedRevision v) (appliedRevision (steps v es))"
proof (induction es arbitrary: v)
  case Nil
  show ?case by (simp add: steps_def option.rel_refl)
next
  case (Cons e es)
  have "steps v (e # es) = steps (step v e) es"
    by (simp add: steps_def)
  with Cons [of "step v e"] appliedRevision_step [of v e] show ?case
    by (metis rel_option_le_trans)
qed

text \<open>
  Claim C7. In every state in which the notice is shown, the reapply action hides it and
  increases the revision by exactly 1; and no run of filter changes, review updates and
  reapply actions decreases the revision.
\<close>

theorem reapplyFilter_clears_and_increments:
  "(toastShown v \<longrightarrow>
      \<not> toastShown (reapplyFilter v)
      \<and> (\<exists>r. appliedRevision v = Some r \<and> appliedRevision (reapplyFilter v) = Some (r + 1)))
   \<and> rel_option (\<le>) (appliedRevision v) (appliedRevision (steps v es))"
proof
  show "toastShown v \<longrightarrow>
      \<not> toastShown (reapplyFilter v)
      \<and> (\<exists>r. appliedRevision v = Some r \<and> appliedRevision (reapplyFilter v) = Some (r + 1))"
    by (auto simp: toastShown_def reapplyFilter_def onCallToActionClick_def appliedRevision_def
          split: option.splits)
  show "rel_option (\<le>) (appliedRevision v) (appliedRevision (steps v es))"
    by (rule appliedRevision_steps)
qed

text \<open>The theorem after a review update at revision 7: reapplying gives revision 8.\<close>

theorem reapplyFilter_clears_and_increments_witness:
  "toastShown (reviewUpdated \<lparr>filter_state = \<lparr>Keywords = None, Discussion = None\<rparr>,
       pipelineContext = Some \<lparr>reviewRevision = 7, showReviewUpdated = False\<rparr>\<rparr>)
   \<and> \<not> toastShown (reapplyFilter (reviewUpdated \<lparr>filter_state = \<lparr>Keywords = None, Discussion = None\<rparr>,
       pipelineContext = Some \<lparr>reviewRevision = 7, showReviewUpdated = False\<rparr>\<rparr>))
   \<and> appliedRevision (reapplyFilter (reviewUpdated \<lparr>filter_state = \<lparr>Keywords = None, Discussion = None\<rparr>,
       pipelineContext = Some \<lparr>reviewRevision = 7, showReviewUpdated = False\<rparr>\<rparr>)) = Some 8"
  using reapplyFilter_clears_and_increments
    [of "reviewUpdated \<lparr>filter_state = \<lparr>Keywords = None, Discussion = None\<rparr>,
       pipelineContext = Some \<lparr>reviewRevision = 7, showReviewUpdated = False\<rparr>\<rparr>" "[]"]
  by (simp add: notice_eval)

text \<open>
  Claim C8. In every state in which the notice is shown, a mutation of the filter state
  hides it and leaves the revision unchanged.
\<close>

theorem filterChanged_clears_notice:
  assumes "toastShown v"
  shows "\<not> toastShown (filterChanged fs v) \<and> appliedRevision (filterChanged fs v) = appliedRevision v"
  using assms
  by (auto simp: toastShown_def filterChanged_def filterAutorun_def appliedRevision_def
        split: option.splits)

text \<open>The theorem for a shown notice at revision 7 and a new keyword query.\<close>

theorem filterChanged_clears_notice_witness:
  "toastShown \<lparr>filter_state = \<lparr>Keywords = None, Discussion = None\<rparr>,
       pipelineContext = Some \<lparr>reviewRevision = 7, showReviewUpdated = True\<rparr>\<rparr>
   \<and> \<not> toastShown (filterChanged \<lparr>Keywords = Some ''rule'', Discussion = None\<rparr>
        \<lparr>filter_state = \<lparr>Keywords = None, Discussion = None\<rparr>,
         pipelineContext = Some \<lparr>reviewRevision = 7, showReviewUpdated = True\<rparr>\<rparr>)
   \<and> appliedRevision (filterChanged \<lparr>Keywords = Some ''rule'', Discussion = None\<rparr>
        \<lparr>filter_state = \<lparr>Keywords = None, Discussion = None\<rparr>,
         pipelineContext = Some \<lparr>reviewRevision = 7, showReviewUpdated = True\<rparr>\<rparr>) = Some 7"
proof -
  have h: "toastShown \<lparr>filter_state = \<lparr>Keywords = None, Discussion = None\<rparr>,
       pipelineContext = Some \<lparr>reviewRevision = 7, showReviewUpdated = True\<rparr>\<rparr>"
    by (simp add: toastShown_def)
  from h filterChanged_clears_notice [OF h, of "\<lparr>Keywords = Some ''rule'', Discussion = None\<rparr>"]
  show ?thesis by (simp add: appliedRevision_def)
qed

section \<open>The exact match\<close>

text \<open>
  Claim C9, as amended. \<open>hasExactKeywordMatch\<close> is true if and only if the keyword query
  is absent or empty, or some visible thread (one that passes the status filter and
  whose lower-cased signature contains every word of the lower-cased query) has a
  signature whose lower-cased form equals the lower-cased query.
\<close>

theorem hasExactKeywordMatch_iff:
  "hasExactKeywordMatch filterState ds \<longleftrightarrow>
     (case Keywords filterState of
        None \<Rightarrow> True
      | Some q \<Rightarrow> q = [] \<or>
          (\<exists>t \<in> set ds.
             (case Discussion filterState of
                None \<Rightarrow> True | Some sts \<Rightarrow> sts = [] \<or> status t \<in> set sts)
             \<and> isMatch (toLowerCase (keywords t)) (splitWords (toLowerCase q))
             \<and> toLowerCase (keywords t) = toLowerCase q))"
  by (auto simp: hasExactKeywordMatch_def filteredDiscussions_def list_ex_iff
           split: option.splits)

text \<open>The theorem for the query \<open>rule01 rule02\<close> and the status filter \<open>Closed\<close>.\<close>

theorem hasExactKeywordMatch_iff_witness:
  "hasExactKeywordMatch \<lparr>Keywords = Some ''rule01 rule02'', Discussion = Some [''Closed'']\<rparr> store_discussions"
  using hasExactKeywordMatch_iff [of "\<lparr>Keywords = Some ''rule01 rule02'', Discussion = Some [''Closed'']\<rparr>" store_discussions]
  by (simp add: eval_defs)

text \<open>The claim as stated fails for the query \<open>RULE01\<close> on the initial store: the result
  is true, the query is not empty, and no visible thread has the signature \<open>rule01\<close>.\<close>

theorem hasExactKeywordMatch_counterexample:
  "hasExactKeywordMatch \<lparr>Keywords = Some ''RULE01'', Discussion = None\<rparr> store_discussions
   \<and> ''RULE01'' \<noteq> []
   \<and> toLowerCase ''RULE01'' \<notin>
       set (map keywords (filteredDiscussions \<lparr>Keywords = Some ''RULE01'', Discussion = None\<rparr> store_discussions))"
  by (simp add: eval_defs)

section \<open>The author of a comment\<close>

text \<open>
  Claim C10. When the component has no \<open>user\<close>, pressing Enter appends one comment, and
  its author is the string \<open>Anonymous\<close>.
\<close>

theorem onKeyPress_anonymous:
  "length (comments (discussion (onKeyPress None now ''Enter'' st)))
     = Suc (length (comments (discussion st)))
   \<and> who (last (comments (discussion (onKeyPress None now ''Enter'' st)))) = ''Anonymous''"
  by (simp add: onKeyPress_def)

end
